theory Spec2Isabelle
  imports Main
begin

section \<open>Python values and exceptions\<close>

text \<open>
  The values a keyword argument can carry, as far as \<open>numpy/lib/stride_tricks.py\<close> looks
  at them: \<open>subok\<close> is only ever tested for truth.
\<close>

datatype pyobj = PyNone | PyBool bool | PyInt int | PyStr string

fun truthy :: "pyobj \<Rightarrow> bool" where
  "truthy PyNone = False"
| "truthy (PyBool b) = b"
| "truthy (PyInt i) = (i \<noteq> 0)"
| "truthy (PyStr s) = (s \<noteq> [])"

datatype exc_class = TypeError | ValueError | IndexError

text \<open>
  Every \<open>raise\<close> (and every failing builtin) of the module is one constructor:
  \<^item> \<open>DictPopArity\<close>: \<open>kwargs.pop()\<close> in line 93 is called without a key while the message of
    the intended \<open>TypeError\<close> is being formatted; \<open>dict.pop\<close> needs at least one argument
    and raises \<open>TypeError\<close> itself;
  \<^item> \<open>MaxEmptySequence\<close>: \<open>max(nds)\<close> in line 102 on an empty list;
  \<^item> \<open>ShapeMismatch axis\<close>: the \<open>ValueError\<close> of lines 118-119, whose message carries the axis;
  \<^item> \<open>WindowTooSmall\<close>, \<open>WindowTooLong\<close>: the two \<open>ValueError\<close>s of \<open>rolling_window\<close>;
  \<^item> \<open>TupleIndexOutOfRange\<close>: \<open>a.shape[-1]\<close> on an empty shape tuple.
\<close>

datatype error =
    DictPopArity
  | MaxEmptySequence
  | ShapeMismatch nat
  | WindowTooSmall
  | WindowTooLong
  | TupleIndexOutOfRange

fun exc_class_of :: "error \<Rightarrow> exc_class" where
  "exc_class_of DictPopArity = TypeError"
| "exc_class_of MaxEmptySequence = ValueError"
| "exc_class_of (ShapeMismatch axis) = ValueError"
| "exc_class_of WindowTooSmall = ValueError"
| "exc_class_of WindowTooLong = ValueError"
| "exc_class_of TupleIndexOutOfRange = IndexError"


section \<open>Arrays\<close>

text \<open>
  An array header: shape, strides, the address of the buffer it reads (\<open>data\<close>), the element
  type, the Python class of the object (\<open>Ndarray\<close> is the exact base class, \<open>Subclass c\<close> a
  derived class) and the instance attributes a derived class keeps beside the header.
\<close>

datatype dtype = DType (kind: char) (itemsize: nat) (fields: "string list")

datatype pytype = Ndarray | Subclass nat

record ndarray =
  shape :: "nat list"
  strides :: "int list"
  data :: nat
  dtype :: dtype
  pytype :: pytype
  attrs :: "(string \<times> pyobj) list"

text \<open>
  \<open>__array_finalize__\<close> of the derived classes: \<open>fin c = None\<close> when class \<open>c\<close> does not
  declare the hook, \<open>Some f\<close> when it does, \<open>f\<close> computing the attributes of the new view
  from those of the array it was taken from.
\<close>

type_synonym finalizers = "nat \<Rightarrow> ((string \<times> pyobj) list \<Rightarrow> (string \<times> pyobj) list) option"

text \<open>\<open>np.array(x, copy=False, subok=subok)\<close> on an array: the array itself, or, for an
  instance of a derived class when \<open>subok\<close> is false, a base-class array over the same
  buffer.\<close>

definition np_array :: "ndarray \<Rightarrow> bool \<Rightarrow> ndarray" where
  "np_array x subok =
     (if subok \<or> pytype x = Ndarray then x else x\<lparr>pytype := Ndarray, attrs := []\<rparr>)"

text \<open>The \<open>__array_interface__\<close> dictionary, with the keys the module reads or writes.\<close>

record interface =
  i_shape :: "nat list"
  i_strides :: "int list"
  i_data :: nat
  i_typestr :: "char \<times> nat"

definition array_interface :: "ndarray \<Rightarrow> interface" where
  "array_interface x =
     \<lparr>i_shape = shape x, i_strides = strides x, i_data = data x,
      i_typestr = (kind (dtype x), itemsize (dtype x))\<rparr>"

text \<open>\<open>np.asarray(DummyArray(interface, base=x))\<close>: a base-class array built from the
  dictionary; the type string carries the kind and the item size only.\<close>

definition asarray_interface :: "interface \<Rightarrow> ndarray" where
  "asarray_interface i =
     \<lparr>shape = i_shape i, strides = i_strides i, data = i_data i,
      dtype = DType (fst (i_typestr i)) (snd (i_typestr i)) [],
      pytype = Ndarray, attrs = []\<rparr>"

definition as_strided ::
  "finalizers \<Rightarrow> ndarray \<Rightarrow> nat list option \<Rightarrow> int list option \<Rightarrow> bool \<Rightarrow> ndarray" where
  "as_strided fin x0 shape_arg strides_arg subok =
     (let x = np_array x0 subok;
          interface0 = array_interface x;
          interface1 = (case shape_arg of None \<Rightarrow> interface0
                        | Some sh \<Rightarrow> interface0\<lparr>i_shape := sh\<rparr>);
          interface2 = (case strides_arg of None \<Rightarrow> interface1
                        | Some st \<Rightarrow> interface1\<lparr>i_strides := st\<rparr>);
          array0 = asarray_interface interface2;
          array1 = (if kind (dtype array0) = CHR ''V'' then array0\<lparr>dtype := dtype x\<rparr>
                    else array0)
      in if pytype x \<noteq> pytype array1 then
           (let array2 = array1\<lparr>pytype := pytype x\<rparr>
            in case pytype x of
                 Ndarray \<Rightarrow> array2
               | Subclass c \<Rightarrow>
                   (case fin c of None \<Rightarrow> array2
                    | Some f \<Rightarrow> array2\<lparr>attrs := f (attrs x)\<rparr>))
         else array1)"


section \<open>broadcast_arrays\<close>

text \<open>\<open>max\<close> of a list of dimension counts; Python raises on the empty list.\<close>

definition py_max :: "nat list \<Rightarrow> error + nat" where
  "py_max ns = (case ns of [] \<Rightarrow> Inl MaxEmptySequence | n # rest \<Rightarrow> Inr (fold max rest n))"

text \<open>Lines 105-109: prepend dimensions of length 1 (and strides 0); \<open>diff\<close> is computed
  from the length of the shape for both lists.\<close>

definition prepend_shape :: "nat \<Rightarrow> nat list \<Rightarrow> nat list" where
  "prepend_shape biggest s =
     (let diff = biggest - length s in if diff > 0 then replicate diff 1 @ s else s)"

definition prepend_strides :: "nat \<Rightarrow> nat list \<Rightarrow> int list \<Rightarrow> int list" where
  "prepend_strides biggest s st =
     (let diff = biggest - length s in if diff > 0 then replicate diff 0 @ st else st)"

text \<open>\<open>lengths = [s[axis] for s in shapes]\<close> and \<open>unique = set(lengths + [1])\<close>; the set is
  kept as a duplicate-free list.\<close>

definition lengths_at :: "nat \<Rightarrow> nat list list \<Rightarrow> nat list" where
  "lengths_at axis shapes = map (\<lambda>s. s ! axis) shapes"

definition unique_of :: "nat list \<Rightarrow> nat list" where
  "unique_of lengths = remdups (lengths @ [1])"

text \<open>
  One pass of the loop over \<open>axis\<close> (lines 113-136) on the state
  \<open>(shapes, strides_list, common_shape)\<close> (\<open>strides_list\<close> is the source's list
  \<open>strides\<close>). In the middle branch \<open>unique\<close> has two elements, one
  of them 1: after \<open>unique.remove(1)\<close> the \<open>pop\<close> returns the only element left.
\<close>

definition broadcast_axis ::
  "nat \<Rightarrow> nat list list \<times> int list list \<times> nat list
       \<Rightarrow> error + (nat list list \<times> int list list \<times> nat list)" where
  "broadcast_axis axis state =
     (case state of (shapes, strides_list, common_shape) \<Rightarrow>
        let lengths = lengths_at axis shapes;
            unique = unique_of lengths
        in if length unique > 2 then Inl (ShapeMismatch axis)
           else if length unique = 2 then
             (let new_length = hd (removeAll 1 unique)
              in Inr (map (\<lambda>s. if s ! axis = 1 then s[axis := new_length] else s) shapes,
                      map (\<lambda>(s, st). if s ! axis = 1 then st[axis := 0] else st)
                          (zip shapes strides_list),
                      common_shape @ [new_length]))
           else Inr (shapes, strides_list, common_shape @ [1]))"

fun broadcast_axes ::
  "nat list \<Rightarrow> nat list list \<times> int list list \<times> nat list
       \<Rightarrow> error + (nat list list \<times> int list list \<times> nat list)" where
  "broadcast_axes [] state = Inr state"
| "broadcast_axes (axis # axes) state =
     (case broadcast_axis axis state of
        Inl e \<Rightarrow> Inl e
      | Inr state' \<Rightarrow> broadcast_axes axes state')"

text \<open>
  \<open>broadcast_arrays(*args, **kwargs)\<close>. The keyword dictionary is an association list
  with distinct keys. The operands are arrays already; \<open>np.array(_m, copy=False,
  subok=subok)\<close> is \<open>np_array\<close>.
\<close>

definition kwargs_pop_subok :: "(string \<times> pyobj) list \<Rightarrow> bool" where
  "kwargs_pop_subok kwargs0 =
     (case map_of kwargs0 ''subok'' of None \<Rightarrow> False | Some v \<Rightarrow> truthy v)"

definition broadcast_arrays ::
  "finalizers \<Rightarrow> ndarray list \<Rightarrow> (string \<times> pyobj) list \<Rightarrow> error + ndarray list" where
  "broadcast_arrays fin args0 kwargs0 =
     (let subok = kwargs_pop_subok kwargs0;
          kwargs = filter (\<lambda>kv. fst kv \<noteq> ''subok'') kwargs0
      in if kwargs \<noteq> [] then Inl DictPopArity
         else
           let args = map (\<lambda>m. np_array m subok) args0;
               shapes = map shape args
           in if length (remdups shapes) = 1 then Inr args
              else
                case py_max (map length shapes) of
                  Inl e \<Rightarrow> Inl e
                | Inr biggest \<Rightarrow>
                    (case broadcast_axes [0..<biggest]
                            (map (prepend_shape biggest) shapes,
                             map (\<lambda>x. prepend_strides biggest (shape x) (strides x)) args,
                             []) of
                       Inl e \<Rightarrow> Inl e
                     | Inr (shapes', strides', common_shape) \<Rightarrow>
                         Inr (map (\<lambda>(x, sh, st). as_strided fin x (Some sh) (Some st) subok)
                                  (zip args (zip shapes' strides')))))"


section \<open>rolling_window\<close>




section \<open>The broadcasting rule, as the specification words it\<close>

text \<open>No derived class declares \<open>__array_finalize__\<close>.\<close>

definition no_finalize :: finalizers where
  "no_finalize = (\<lambda>c. None)"

text \<open>A keyword dictionary that holds nothing but (possibly) \<open>subok\<close>.\<close>

definition only_subok :: "(string \<times> pyobj) list \<Rightarrow> bool" where
  "only_subok kwargs = (\<forall>kv\<in>set kwargs. fst kv = ''subok'')"

text \<open>The invariant of an array header: one stride per dimension.\<close>

definition well_formed :: "ndarray \<Rightarrow> bool" where
  "well_formed x = (length (strides x) = length (shape x))"

text \<open>The largest number of dimensions, and the shapes right-aligned to it (left-padded
  with length-1 entries).\<close>

definition rank_of :: "nat list list \<Rightarrow> nat" where
  "rank_of shapes = fold max (map length shapes) 0"

definition aligned :: "nat list list \<Rightarrow> nat list list" where
  "aligned shapes = map (prepend_shape (rank_of shapes)) shapes"



text \<open>The common length of an axis: the length other than 1 contributed there, or 1 if
  there is none. \<open>claimed_common_length\<close> is the same with "greater than 1", as C1 words
  it.\<close>

definition common_length :: "nat list \<Rightarrow> nat" where
  "common_length lengths = (case filter (\<lambda>l. l \<noteq> 1) lengths of [] \<Rightarrow> 1 | l # _ \<Rightarrow> l)"


definition common_shape_of :: "nat list list \<Rightarrow> nat list" where
  "common_shape_of shapes =
     map (\<lambda>axis. common_length (lengths_at axis (aligned shapes))) [0..<rank_of shapes]"




text \<open>An axis on which two operands have distinct lengths, both greater than 1 (C2 as
  worded), or both other than 1 (what line 116 tests).\<close>

definition two_lengths_above_1 :: "nat list \<Rightarrow> bool" where
  "two_lengths_above_1 lengths = (\<exists>x\<in>set lengths. \<exists>y\<in>set lengths. x \<noteq> y \<and> 1 < x \<and> 1 < y)"

definition two_lengths_not_1 :: "nat list \<Rightarrow> bool" where
  "two_lengths_not_1 lengths = (\<exists>x\<in>set lengths. \<exists>y\<in>set lengths. x \<noteq> y \<and> x \<noteq> 1 \<and> y \<noteq> 1)"

text \<open>A base-class array of 8-byte integers, for the concrete examples.\<close>

definition int64_array :: "nat list \<Rightarrow> int list \<Rightarrow> nat \<Rightarrow> ndarray" where
  "int64_array sh st d =
     \<lparr>shape = sh, strides = st, data = d, dtype = DType CHR ''i'' 8 [],
      pytype = Ndarray, attrs = []\<rparr>"

text \<open>The state of the loop of lines 113-136 after the axes in \<open>axes\<close>, for one operand
  with aligned shape \<open>s\<close> and strides \<open>st\<close>.\<close>

definition new_length_of :: "nat list \<Rightarrow> nat" where
  "new_length_of lengths = hd (removeAll 1 (unique_of lengths))"

definition shape_after :: "nat list \<Rightarrow> nat list list \<Rightarrow> nat list \<Rightarrow> nat list" where
  "shape_after axes shapes s =
     map (\<lambda>axis. if axis \<in> set axes \<and> s ! axis = 1 \<and>
                     length (unique_of (lengths_at axis shapes)) = 2
                  then new_length_of (lengths_at axis shapes) else s ! axis) [0..<length s]"

definition strides_after :: "nat list \<Rightarrow> nat list list \<Rightarrow> nat list \<Rightarrow> int list \<Rightarrow> int list" where
  "strides_after axes shapes s st =
     map (\<lambda>axis. if axis \<in> set axes \<and> s ! axis = 1 \<and>
                     length (unique_of (lengths_at axis shapes)) = 2
                  then 0 else st ! axis) [0..<length st]"

definition common_after :: "nat list \<Rightarrow> nat list list \<Rightarrow> nat list" where
  "common_after axes shapes =
     map (\<lambda>axis. if length (unique_of (lengths_at axis shapes)) = 2
                  then new_length_of (lengths_at axis shapes) else 1) axes"


definition state_after ::
  "nat list \<Rightarrow> nat list list \<Rightarrow> int list list \<Rightarrow> nat list
     \<Rightarrow> nat list list \<times> int list list \<times> nat list" where
  "state_after axes shapes strides_list common_shape =
     (map (shape_after axes shapes) shapes,
      map (\<lambda>(s, st). strides_after axes shapes s st) (zip shapes strides_list),
      common_shape @ common_after axes shapes)"


section \<open>Properties of as_strided\<close>

lemma np_array_header:
  "shape (np_array x subok) = shape x"
  "strides (np_array x subok) = strides x"
  "data (np_array x subok) = data x"
  "dtype (np_array x subok) = dtype x"
  by (simp_all add: np_array_def)






section \<open>Properties of rolling_window\<close>




section \<open>Properties of broadcast_arrays\<close>



lemma only_subok_filter:
  "only_subok kwargs \<Longrightarrow> filter (\<lambda>kv. fst kv \<noteq> ''subok'') kwargs = []"
  by (induction kwargs) (auto simp: only_subok_def)





section \<open>The loop over the axes\<close>

lemma broadcast_axes_append:
  "broadcast_axes (xs @ ys) st =
     (case broadcast_axes xs st of Inl e \<Rightarrow> Inl e | Inr st' \<Rightarrow> broadcast_axes ys st')"
  by (induction xs arbitrary: st) (auto split: sum.splits)

lemma length_shape_after [simp]: "length (shape_after axes shapes s) = length s"
  by (simp add: shape_after_def)

lemma length_strides_after [simp]: "length (strides_after axes shapes s st) = length st"
  by (simp add: strides_after_def)

lemma shape_after_nth:
  "axis < length s \<Longrightarrow> shape_after axes shapes s ! axis =
     (if axis \<in> set axes \<and> s ! axis = 1 \<and> length (unique_of (lengths_at axis shapes)) = 2
      then new_length_of (lengths_at axis shapes) else s ! axis)"
  by (simp add: shape_after_def)

lemma strides_after_nth:
  "axis < length st \<Longrightarrow> strides_after axes shapes s st ! axis =
     (if axis \<in> set axes \<and> s ! axis = 1 \<and> length (unique_of (lengths_at axis shapes)) = 2
      then 0 else st ! axis)"
  by (simp add: strides_after_def)

lemma lengths_at_shape_after:
  assumes "a \<notin> set axes" and "\<forall>s\<in>set shapes. a < length s"
  shows "lengths_at a (map (shape_after axes shapes) shapes) = lengths_at a shapes"
  using assms by (simp add: lengths_at_def shape_after_nth)

lemma shape_after_step_two:
  assumes "a < length s" and "a \<notin> set axes"
    and "length (unique_of (lengths_at a shapes)) = 2"
  shows "(if shape_after axes shapes s ! a = 1
          then (shape_after axes shapes s)[a := new_length_of (lengths_at a shapes)]
          else shape_after axes shapes s) = shape_after (axes @ [a]) shapes s"
  using assms by (auto intro!: nth_equalityI simp: shape_after_nth nth_list_update)

lemma shape_after_step_other:
  assumes "length (unique_of (lengths_at a shapes)) \<noteq> 2"
  shows "shape_after (axes @ [a]) shapes = shape_after axes shapes"
  using assms by (auto simp: shape_after_def fun_eq_iff)

lemma strides_after_step_two:
  assumes "a < length s" and "length st = length s" and "a \<notin> set axes"
    and "length (unique_of (lengths_at a shapes)) = 2"
  shows "(if shape_after axes shapes s ! a = 1
          then (strides_after axes shapes s st)[a := 0]
          else strides_after axes shapes s st) = strides_after (axes @ [a]) shapes s st"
  using assms
  by (auto intro!: nth_equalityI simp: shape_after_nth strides_after_nth nth_list_update)

lemma strides_after_step_other:
  assumes "length (unique_of (lengths_at a shapes)) \<noteq> 2"
  shows "strides_after (axes @ [a]) shapes = strides_after axes shapes"
  using assms by (auto simp: strides_after_def fun_eq_iff)

lemma broadcast_axis_two:
  assumes "length (unique_of (lengths_at a shapes)) = 2"
  shows "broadcast_axis a (shapes, strides_list, cs) =
     Inr (map (\<lambda>s. if s ! a = 1 then s[a := new_length_of (lengths_at a shapes)] else s) shapes,
          map (\<lambda>(s, st). if s ! a = 1 then st[a := 0] else st) (zip shapes strides_list),
          cs @ [new_length_of (lengths_at a shapes)])"
  using assms by (simp add: broadcast_axis_def Let_def new_length_of_def)

lemma broadcast_axis_one:
  assumes "length (unique_of (lengths_at a shapes)) < 2"
  shows "broadcast_axis a (shapes, strides_list, cs) = Inr (shapes, strides_list, cs @ [1])"
  using assms by (simp add: broadcast_axis_def Let_def)

lemma broadcast_axis_many:
  assumes "length (unique_of (lengths_at a shapes)) > 2"
  shows "broadcast_axis a (shapes, strides_list, cs) = Inl (ShapeMismatch a)"
  using assms by (simp add: broadcast_axis_def Let_def)

lemma broadcast_axis_state_after:
  assumes len: "length strides_list = length shapes"
    and lens: "\<forall>i<length shapes. length (strides_list ! i) = length (shapes ! i)"
    and rng: "\<forall>s\<in>set shapes. a < length s"
    and new: "a \<notin> set axes"
    and ok: "length (unique_of (lengths_at a shapes)) \<le> 2"
  shows "broadcast_axis a (state_after axes shapes strides_list cs)
           = Inr (state_after (axes @ [a]) shapes strides_list cs)"
proof (cases "length (unique_of (lengths_at a shapes)) = 2")
  case True
  have sh: "map (\<lambda>s. if s ! a = 1 then s[a := new_length_of (lengths_at a shapes)] else s)
              (map (shape_after axes shapes) shapes)
            = map (shape_after (axes @ [a]) shapes) shapes"
  proof -
    have "\<And>s. s \<in> set shapes \<Longrightarrow>
        (if shape_after axes shapes s ! a = 1
          then (shape_after axes shapes s)[a := new_length_of (lengths_at a shapes)]
          else shape_after axes shapes s) = shape_after (axes @ [a]) shapes s"
      using rng new True by (intro shape_after_step_two) auto
    then show ?thesis unfolding map_map o_def by (intro map_cong refl)
  qed
  have st: "map (\<lambda>(s, st). if s ! a = 1 then st[a := 0] else st)
              (zip (map (shape_after axes shapes) shapes)
                   (map (\<lambda>(s, st). strides_after axes shapes s st) (zip shapes strides_list)))
            = map (\<lambda>(s, st). strides_after (axes @ [a]) shapes s st) (zip shapes strides_list)"
  proof (rule nth_equalityI)
    show "length (map (\<lambda>(s, st). if s ! a = 1 then st[a := 0] else st)
              (zip (map (shape_after axes shapes) shapes)
                   (map (\<lambda>(s, st). strides_after axes shapes s st) (zip shapes strides_list))))
          = length (map (\<lambda>(s, st). strides_after (axes @ [a]) shapes s st)
                     (zip shapes strides_list))"
      using len by simp
  next
    fix i
    assume "i < length (map (\<lambda>(s, st). if s ! a = 1 then st[a := 0] else st)
              (zip (map (shape_after axes shapes) shapes)
                   (map (\<lambda>(s, st). strides_after axes shapes s st) (zip shapes strides_list))))"
    then have i: "i < length shapes" using len by simp
    then have a: "a < length (shapes ! i)" using rng by simp
    have l: "length (strides_list ! i) = length (shapes ! i)" using lens i by simp
    show "map (\<lambda>(s, st). if s ! a = 1 then st[a := 0] else st)
              (zip (map (shape_after axes shapes) shapes)
                   (map (\<lambda>(s, st). strides_after axes shapes s st) (zip shapes strides_list))) ! i
          = map (\<lambda>(s, st). strides_after (axes @ [a]) shapes s st) (zip shapes strides_list) ! i"
      using i len strides_after_step_two [OF a l new True] by simp
  qed
  have cs: "common_after (axes @ [a]) shapes
            = common_after axes shapes @ [new_length_of (lengths_at a shapes)]"
    using True by (simp add: common_after_def)
  let ?S = "map (shape_after axes shapes) shapes"
  have la: "lengths_at a ?S = lengths_at a shapes"
    by (rule lengths_at_shape_after [OF new rng])
  have two: "length (unique_of (lengths_at a ?S)) = 2" using True la by simp
  show ?thesis
    unfolding state_after_def broadcast_axis_two [OF two]
    by (simp only: la sh st cs append_assoc)
next
  case False
  let ?S = "map (shape_after axes shapes) shapes"
  have la: "lengths_at a ?S = lengths_at a shapes"
    by (rule lengths_at_shape_after [OF new rng])
  have one: "length (unique_of (lengths_at a ?S)) < 2" using False ok la by simp
  have cs: "common_after (axes @ [a]) shapes = common_after axes shapes @ [1]"
    using False by (simp add: common_after_def)
  show ?thesis
    unfolding state_after_def broadcast_axis_one [OF one]
    by (simp only: cs append_assoc shape_after_step_other [OF False]
        strides_after_step_other [OF False])
qed

lemma broadcast_axes_state_after:
  assumes len: "length strides_list = length shapes"
    and lens: "\<forall>i<length shapes. length (strides_list ! i) = length (shapes ! i)"
    and rng: "\<forall>s\<in>set shapes. \<forall>a\<in>set axes. a < length s"
    and dist: "distinct axes"
    and ok: "\<forall>a\<in>set axes. length (unique_of (lengths_at a shapes)) \<le> 2"
  shows "broadcast_axes axes (state_after [] shapes strides_list cs)
           = Inr (state_after axes shapes strides_list cs)"
  using rng dist ok
proof (induction axes rule: rev_induct)
  case Nil
  show ?case by simp
next
  case (snoc a axes)
  have pre: "broadcast_axes axes (state_after [] shapes strides_list cs)
           = Inr (state_after axes shapes strides_list cs)"
    using snoc by simp
  have step: "broadcast_axis a (state_after axes shapes strides_list cs)
           = Inr (state_after (axes @ [a]) shapes strides_list cs)"
    using snoc.prems by (intro broadcast_axis_state_after [OF len lens]) auto
  show ?case using pre step by (simp add: broadcast_axes_append)
qed

lemma state_after_Nil:
  assumes len: "length strides_list = length shapes"
  shows "state_after [] shapes strides_list cs = (shapes, strides_list, cs)"
proof -
  have a: "map (shape_after [] shapes) shapes = shapes"
    by (simp add: shape_after_def map_nth cong: map_cong)
  have "map (\<lambda>(s, st). strides_after [] shapes s st) (zip shapes strides_list)
          = map snd (zip shapes strides_list)"
    by (simp add: strides_after_def map_nth case_prod_unfold)
  then have b: "map (\<lambda>(s, st). strides_after [] shapes s st) (zip shapes strides_list)
          = strides_list" using len by simp
  show ?thesis using a b by (simp add: state_after_def common_after_def)
qed

lemma broadcast_axes_mismatch:
  assumes len: "length strides_list = length shapes"
    and lens: "\<forall>i<length shapes. length (strides_list ! i) = length (shapes ! i)"
    and rng: "\<forall>s\<in>set shapes. length s = n"
    and k: "k < n"
    and ok: "\<forall>a<k. length (unique_of (lengths_at a shapes)) \<le> 2"
    and bad: "length (unique_of (lengths_at k shapes)) > 2"
  shows "broadcast_axes [0..<n] (shapes, strides_list, cs) = Inl (ShapeMismatch k)"
proof -
  have split: "[0..<n] = [0..<k] @ k # [Suc k..<n]"
    using k by (metis less_or_eq_imp_le upt_add_eq_append upt_conv_Cons le_add_diff_inverse zero_le)
  have pre: "broadcast_axes [0..<k] (state_after [] shapes strides_list cs)
           = Inr (state_after [0..<k] shapes strides_list cs)"
    using rng k ok by (intro broadcast_axes_state_after [OF len lens]) auto
  have "lengths_at k (map (shape_after [0..<k] shapes) shapes) = lengths_at k shapes"
    using rng k by (intro lengths_at_shape_after) auto
  then have step: "broadcast_axis k (state_after [0..<k] shapes strides_list cs)
           = Inl (ShapeMismatch k)"
    unfolding state_after_def using bad by (intro broadcast_axis_many) simp
  show ?thesis
    using pre step state_after_Nil [OF len, of cs]
    by (simp add: split broadcast_axes_append)
qed


section \<open>Lengths on one axis\<close>

lemma length_unique_of: "length (unique_of lengths) = card (insert 1 (set lengths))"
  by (simp add: unique_of_def length_remdups_card_conv)


lemma two_lengths_above_imp_not_1: "two_lengths_above_1 lengths \<Longrightarrow> two_lengths_not_1 lengths"
  by (auto simp: two_lengths_above_1_def two_lengths_not_1_def)

lemma two_lengths_not_1_iff: "two_lengths_not_1 lengths = (2 < length (unique_of lengths))"
proof
  assume "two_lengths_not_1 lengths"
  then obtain x y where xy: "x \<in> set lengths" "y \<in> set lengths" "x \<noteq> y" "x \<noteq> 1" "y \<noteq> 1"
    by (auto simp: two_lengths_not_1_def)
  then have "{x, y, 1} \<subseteq> insert 1 (set lengths)" by auto
  then have "card {x, y, 1} \<le> card (insert 1 (set lengths))"
    by (intro card_mono) auto
  moreover have "card {x, y, 1} = 3" using xy by simp
  ultimately show "2 < length (unique_of lengths)" by (simp add: length_unique_of)
next
  assume big: "2 < length (unique_of lengths)"
  have "card (insert 1 (set lengths)) = Suc (card (set lengths - {1}))"
    by (simp add: card.insert_remove)
  then have "card (insert 1 (set lengths)) \<le> Suc (card (set lengths - {1}))" by simp
  with big have "\<not> card (set lengths - {1}) \<le> Suc 0" by (simp add: length_unique_of)
  then have "\<not> (\<forall>a\<in>set lengths - {1}. \<forall>b\<in>set lengths - {1}. a = b)"
    by (simp add: card_le_Suc0_iff_eq)
  then show "two_lengths_not_1 lengths" by (auto simp: two_lengths_not_1_def)
qed







lemma fold_max_ge: "n \<le> fold max xs (n::nat)"
proof (induction xs arbitrary: n)
  case Nil
  show ?case by simp
next
  case (Cons y ys)
  have "n \<le> max y n" by simp
  also have "\<dots> \<le> fold max ys (max y n)" by (rule Cons.IH)
  finally show ?case by simp
qed

lemma fold_max_member: "x \<in> set xs \<Longrightarrow> x \<le> fold max xs (n::nat)"
proof (induction xs arbitrary: n)
  case Nil
  then show ?case by simp
next
  case (Cons y ys)
  show ?case
  proof (cases "x = y")
    case True
    have "y \<le> max y n" by simp
    also have "\<dots> \<le> fold max ys (max y n)" by (rule fold_max_ge)
    finally show ?thesis using True by simp
  next
    case False
    with Cons show ?thesis by simp
  qed
qed

lemma fold_max_le: "n \<le> m \<Longrightarrow> \<forall>x\<in>set xs. x \<le> m \<Longrightarrow> fold max xs (n::nat) \<le> m"
  by (induction xs arbitrary: n) auto

lemma py_max_rank_of: "shapes \<noteq> [] \<Longrightarrow> py_max (map length shapes) = Inr (rank_of shapes)"
  by (cases shapes) (simp_all add: py_max_def rank_of_def)

lemma rank_of_ge: "s \<in> set shapes \<Longrightarrow> length s \<le> rank_of shapes"
  by (simp add: rank_of_def fold_max_member)

lemma length_prepend_shape: "length s \<le> b \<Longrightarrow> length (prepend_shape b s) = b"
  by (simp add: prepend_shape_def Let_def)

lemma length_prepend_strides:
  "length st = length s \<Longrightarrow> length s \<le> b \<Longrightarrow> length (prepend_strides b s st) = b"
  by (simp add: prepend_strides_def Let_def)

lemma length_aligned [simp]: "length (aligned shapes) = length shapes"
  by (simp add: aligned_def)

lemma aligned_rank: "s \<in> set (aligned shapes) \<Longrightarrow> length s = rank_of shapes"
  by (auto simp: aligned_def length_prepend_shape rank_of_ge)

lemma rank_of_all_equal:
  assumes "set shapes = {s}"
  shows "rank_of shapes = length s"
proof -
  from assms have "s \<in> set shapes" by simp
  then have "length s \<le> rank_of shapes" by (rule rank_of_ge)
  moreover have "set (map length shapes) = {length s}" using assms by simp
  then have "\<forall>x\<in>set (map length shapes). x \<le> length s" by simp
  then have "rank_of shapes \<le> length s"
    unfolding rank_of_def by (intro fold_max_le) simp_all
  ultimately show ?thesis by simp
qed

lemma prepend_shape_same [simp]: "prepend_shape (length s) s = s"
  by (simp add: prepend_shape_def)

lemma prepend_strides_same [simp]: "prepend_strides (length s) s st = st"
  by (simp add: prepend_strides_def)


section \<open>Shape mismatch\<close>

lemma map_shape_np_array:
  "map shape (map (\<lambda>m. np_array m subok) args) = map shape args"
  by (simp add: np_array_header)

lemma map_strides_np_array:
  "map (\<lambda>x. prepend_strides b (shape x) (strides x)) (map (\<lambda>m. np_array m subok) args)
     = map (\<lambda>x. prepend_strides b (shape x) (strides x)) args"
  by (simp add: np_array_header)


lemma broadcast_arrays_slow:
  assumes kw: "only_subok kwargs" and ne: "args \<noteq> []"
    and slow: "length (remdups (map shape args)) \<noteq> 1"
  shows "broadcast_arrays fin args kwargs =
     (case broadcast_axes [0..<rank_of (map shape args)]
             (aligned (map shape args),
              map (\<lambda>x. prepend_strides (rank_of (map shape args)) (shape x) (strides x)) args,
              []) of
        Inl e \<Rightarrow> Inl e
      | Inr (shapes', strides', common_shape) \<Rightarrow>
          Inr (map (\<lambda>(x, sh, st). as_strided fin x (Some sh) (Some st) (kwargs_pop_subok kwargs))
                 (zip (map (\<lambda>m. np_array m (kwargs_pop_subok kwargs)) args)
                      (zip shapes' strides'))))"
proof -
  have pm: "py_max (map length (map shape args)) = Inr (rank_of (map shape args))"
    using ne by (intro py_max_rank_of) simp
  show ?thesis
    unfolding broadcast_arrays_def Let_def only_subok_filter [OF kw]
      map_shape_np_array map_strides_np_array
    using slow pm by (simp add: aligned_def)
qed

lemma initial_state_lengths:
  assumes wf: "\<forall>x\<in>set args. well_formed x"
  shows "\<forall>i<length (aligned (map shape args)).
           length (map (\<lambda>x. prepend_strides (rank_of (map shape args)) (shape x) (strides x)) args ! i)
           = length (aligned (map shape args) ! i)"
proof (intro allI impI)
  fix i assume "i < length (aligned (map shape args))"
  then have i: "i < length args" by simp
  then have m: "args ! i \<in> set args" by simp
  then have w: "length (strides (args ! i)) = length (shape (args ! i))"
    using wf by (simp add: well_formed_def)
  have le: "length (shape (args ! i)) \<le> rank_of (map shape args)"
    using m by (intro rank_of_ge) simp
  show "length (map (\<lambda>x. prepend_strides (rank_of (map shape args)) (shape x) (strides x)) args ! i)
           = length (aligned (map shape args) ! i)"
    using i w le by (simp add: aligned_def length_prepend_shape length_prepend_strides)
qed

lemma remdups_one_set:
  assumes "length (remdups xs) = 1"
  shows "\<exists>s. set xs = {s}"
proof -
  from assms have "card (set xs) = 1" by (simp add: length_remdups_card_conv)
  then show ?thesis by (rule card_1_singletonE) blast
qed

lemma lengths_at_all_equal:
  assumes "set shapes = {s}"
  shows "\<forall>x\<in>set (lengths_at axis (aligned shapes)). x = s ! axis"
proof -
  have r: "rank_of shapes = length s" using assms by (rule rank_of_all_equal)
  have "\<forall>t\<in>set shapes. prepend_shape (rank_of shapes) t = s"
    using assms r by simp
  then show ?thesis by (simp add: lengths_at_def aligned_def)
qed

lemma two_lengths_not_fast:
  assumes "two_lengths_not_1 (lengths_at axis (aligned shapes))"
  shows "length (remdups shapes) \<noteq> 1"
proof
  assume "length (remdups shapes) = 1"
  then obtain s where "set shapes = {s}" using remdups_one_set by blast
  then have "\<forall>x\<in>set (lengths_at axis (aligned shapes)). x = s ! axis"
    by (rule lengths_at_all_equal)
  with assms show False unfolding two_lengths_not_1_def by metis
qed

text \<open>
  C2 (amended). When some axis of the right-aligned shapes carries two distinct lengths, both
  greater than 1, \<open>broadcast_arrays\<close> raises the \<open>ValueError\<close> of lines 118-119, and the axis
  it names is the first axis that carries two distinct lengths other than 1 (a length 0
  counts); that axis is at or before the given one.
\<close>

theorem broadcast_arrays_shape_mismatch:
  assumes wf: "\<forall>x\<in>set args. well_formed x" and kw: "only_subok kwargs"
    and ax: "axis < rank_of (map shape args)"
    and two: "two_lengths_above_1 (lengths_at axis (aligned (map shape args)))"
  shows "\<exists>k\<le>axis. broadcast_arrays fin args kwargs = Inl (ShapeMismatch k) \<and>
           exc_class_of (ShapeMismatch k) = ValueError \<and>
           two_lengths_not_1 (lengths_at k (aligned (map shape args))) \<and>
           (\<forall>j<k. \<not> two_lengths_not_1 (lengths_at j (aligned (map shape args))))"
proof -
  let ?shapes = "map shape args"
  let ?P = "\<lambda>j. two_lengths_not_1 (lengths_at j (aligned ?shapes))"
  define k where "k = (LEAST j. ?P j)"
  have Pa: "?P axis" using two by (rule two_lengths_above_imp_not_1)
  have Pk: "?P k" unfolding k_def using Pa by (rule LeastI)
  have kle: "k \<le> axis" unfolding k_def using Pa by (rule Least_le)
  have least: "\<forall>j<k. \<not> ?P j" unfolding k_def using not_less_Least by blast
  have ne: "args \<noteq> []" using Pa by (auto simp: two_lengths_not_1_def lengths_at_def aligned_def)
  have slow: "length (remdups ?shapes) \<noteq> 1" using Pa by (rule two_lengths_not_fast)
  have bad: "2 < length (unique_of (lengths_at k (aligned ?shapes)))"
    using Pk by (simp add: two_lengths_not_1_iff)
  have ok: "\<forall>a<k. length (unique_of (lengths_at a (aligned ?shapes))) \<le> 2"
    using least by (simp add: two_lengths_not_1_iff not_less)
  have loop: "broadcast_axes [0..<rank_of ?shapes]
          (aligned ?shapes,
           map (\<lambda>x. prepend_strides (rank_of ?shapes) (shape x) (strides x)) args, [])
        = Inl (ShapeMismatch k)"
  proof (rule broadcast_axes_mismatch)
    show "length (map (\<lambda>x. prepend_strides (rank_of ?shapes) (shape x) (strides x)) args)
            = length (aligned ?shapes)" by simp
    show "\<forall>i<length (aligned ?shapes).
           length (map (\<lambda>x. prepend_strides (rank_of ?shapes) (shape x) (strides x)) args ! i)
           = length (aligned ?shapes ! i)"
      using wf by (rule initial_state_lengths)
    show "\<forall>s\<in>set (aligned ?shapes). length s = rank_of ?shapes"
      using aligned_rank by blast
    show "k < rank_of ?shapes" using kle ax by simp
    show "\<forall>a<k. length (unique_of (lengths_at a (aligned ?shapes))) \<le> 2" by (rule ok)
    show "2 < length (unique_of (lengths_at k (aligned ?shapes)))" by (rule bad)
  qed
  have "broadcast_arrays fin args kwargs = Inl (ShapeMismatch k)"
    unfolding broadcast_arrays_slow [OF kw ne slow] loop by simp
  with kle Pk least show ?thesis by auto
qed


theorem broadcast_arrays_shape_mismatch_witness:
  "(well_formed (int64_array [3, 4] [32, 8] 0) \<and> well_formed (int64_array [3, 5] [40, 8] 64) \<and>
    only_subok [] \<and>
    1 < rank_of (map shape [int64_array [3, 4] [32, 8] 0, int64_array [3, 5] [40, 8] 64]) \<and>
    two_lengths_above_1 (lengths_at 1
      (aligned (map shape [int64_array [3, 4] [32, 8] 0, int64_array [3, 5] [40, 8] 64])))) \<and>
   (\<exists>k\<le>1. broadcast_arrays no_finalize
                [int64_array [3, 4] [32, 8] 0, int64_array [3, 5] [40, 8] 64] []
              = Inl (ShapeMismatch k)) \<and>
   broadcast_arrays no_finalize [int64_array [3, 4] [32, 8] 0, int64_array [3, 5] [40, 8] 64] []
     = Inl (ShapeMismatch 1)"
proof -
  let ?args = "[int64_array [3, 4] [32, 8] 0, int64_array [3, 5] [40, 8] 64]"
  have h1: "\<forall>x\<in>set ?args. well_formed x" by (simp add: well_formed_def int64_array_def)
  have h2: "only_subok []" by (simp add: only_subok_def)
  have h3: "1 < rank_of (map shape ?args)" by code_simp
  have h4: "two_lengths_above_1 (lengths_at 1 (aligned (map shape ?args)))" by code_simp
  have ex: "\<exists>k\<le>1. broadcast_arrays no_finalize ?args [] = Inl (ShapeMismatch k)"
    using broadcast_arrays_shape_mismatch [OF h1 h2 h3 h4, of no_finalize] by blast
  have ev: "broadcast_arrays no_finalize ?args [] = Inl (ShapeMismatch 1)" by code_simp
  from h1 h2 h3 h4 ex ev show ?thesis by simp
qed

text \<open>
  C2 as worded fails on shapes \<open>(0, 4)\<close> and \<open>(2, 5)\<close>: axis 1 is the only axis with two distinct
  lengths greater than 1, and the error names axis 0, where the lengths are 0 and 2.
\<close>

theorem broadcast_arrays_shape_mismatch_counterexample:
  "two_lengths_above_1 (lengths_at 1 (aligned [[0, 4], [2, 5]])) \<and>
   \<not> two_lengths_above_1 (lengths_at 0 (aligned [[0, 4], [2, 5]])) \<and>
   map shape [int64_array [0, 4] [32, 8] 0, int64_array [2, 5] [40, 8] 64] = [[0, 4], [2, 5]] \<and>
   broadcast_arrays no_finalize [int64_array [0, 4] [32, 8] 0, int64_array [2, 5] [40, 8] 64] []
     = Inl (ShapeMismatch 0)"
  by code_simp


section \<open>Compatible shapes\<close>



lemma length_common_shape_of [simp]: "length (common_shape_of shapes) = rank_of shapes"
  by (simp add: common_shape_of_def)











text \<open>With no operand at all the fast path is not taken and \<open>max\<close> raises on the empty
  list of dimension counts.\<close>

lemma broadcast_arrays_no_operands:
  "broadcast_arrays fin [] [] = Inl MaxEmptySequence"
  by (simp add: broadcast_arrays_def Let_def py_max_def kwargs_pop_subok_def)

end
